theory Spec2Isabelle
  imports Complex_Main "HOL-Library.Monad_Syntax" "HOL-Library.AList"
begin

section \<open>Text primitives shared by the parsers\<close>

text \<open>
  A Python string is a sequence of code points. Text is modelled as \<open>string\<close>, a
  \<open>char\<close> standing for the code point \<open>of_char c\<close>, so the model covers the texts whose
  code points lie below 256 (Latin-1). On these the classes below are Python's
  \<open>str.isspace\<close>, \<open>str.isalpha\<close>, \<open>str.isdecimal\<close>, \<open>str.isdigit\<close>, \<open>str.isnumeric\<close>
  and \<open>str.isalnum\<close>, read off the Unicode character database: the letters are the ASCII
  letters, U+00AA, U+00B5, U+00BA and U+00C0 to U+00FF without the two signs U+00D7 and
  U+00F7; the digits are the ASCII digits and the superscripts U+00B2, U+00B3, U+00B9;
  the fractions U+00BC to U+00BE are numeric; the white space is U+0009 to U+000D,
  U+001C to U+0020, U+0085 and U+00A0.
\<close>

definition py_isspace :: "char \<Rightarrow> bool" where
  "py_isspace c =
     (let n = (of_char c :: nat)
      in (9 \<le> n \<and> n \<le> 13) \<or> (28 \<le> n \<and> n \<le> 32) \<or> n = 133 \<or> n = 160)"

definition py_isalpha :: "char \<Rightarrow> bool" where
  "py_isalpha c =
     (let n = (of_char c :: nat)
      in (65 \<le> n \<and> n \<le> 90) \<or> (97 \<le> n \<and> n \<le> 122) \<or> n = 170 \<or> n = 181 \<or> n = 186
         \<or> (192 \<le> n \<and> n \<le> 214) \<or> (216 \<le> n \<and> n \<le> 246) \<or> (248 \<le> n \<and> n \<le> 255))"

definition py_isdecimal :: "char \<Rightarrow> bool" where
  "py_isdecimal c = (let n = (of_char c :: nat) in 48 \<le> n \<and> n \<le> 57)"

definition py_isdigit :: "char \<Rightarrow> bool" where
  "py_isdigit c =
     (let n = (of_char c :: nat) in (48 \<le> n \<and> n \<le> 57) \<or> n = 178 \<or> n = 179 \<or> n = 185)"

definition py_isnumeric :: "char \<Rightarrow> bool" where
  "py_isnumeric c = (let n = (of_char c :: nat) in py_isdigit c \<or> (188 \<le> n \<and> n \<le> 190))"

definition py_isalnum :: "char \<Rightarrow> bool" where
  "py_isalnum c = (py_isalpha c \<or> py_isdecimal c \<or> py_isdigit c \<or> py_isnumeric c)"

text \<open>\<open>str.strip()\<close>: leading and trailing whitespace removed.\<close>

definition strip :: "string \<Rightarrow> string" where
  "strip s = rev (dropWhile py_isspace (rev (dropWhile py_isspace s)))"

text \<open>\<open>str.count(c)\<close> for a one-character argument.\<close>

definition count_char :: "char \<Rightarrow> string \<Rightarrow> nat" where
  "count_char c s = length (filter (\<lambda>x. x = c) s)"

text \<open>\<open>sep.join(parts)\<close>.\<close>

fun join :: "string \<Rightarrow> string list \<Rightarrow> string" where
  "join sep [] = []"
| "join sep [x] = x"
| "join sep (x # y # ys) = x @ sep @ join sep (y # ys)"

text \<open>\<open>s.startswith(p)\<close>.\<close>

fun starts_with :: "string \<Rightarrow> string \<Rightarrow> bool" where
  "starts_with [] s = True"
| "starts_with (p # ps) [] = False"
| "starts_with (p # ps) (c # cs) = (p = c \<and> starts_with ps cs)"

text \<open>\<open>sub in s\<close> for strings.\<close>

fun contains :: "string \<Rightarrow> string \<Rightarrow> bool" where
  "contains sub [] = (sub = [])"
| "contains sub (c # cs) = (starts_with sub (c # cs) \<or> contains sub cs)"

section \<open>The line-based rule-block scanner\<close>

text \<open>
  The \<open>while i < len(lines)\<close> loop of \<open>parse_rule_block\<close>
  (\<open>final_enhanced_translator.py\<close>; \<open>parse_drc_rule\<close> of \<open>simple_svrf_parser.py\<close> and
  \<open>parse_enhanced_drc_rule\<close> of \<open>enhanced_svrf_parser.py\<close> have the same loop). The state
  is the index \<open>i\<close>, \<open>brace_count\<close>, \<open>found_opening_brace\<close> and \<open>rule_lines\<close>; the result
  is the index at which the loop stops and the lines collected.
\<close>

function scan_block :: "string list \<Rightarrow> nat \<Rightarrow> int \<Rightarrow> bool \<Rightarrow> string list \<Rightarrow> nat \<times> string list" where
  "scan_block lines i brace_count found_opening_brace rule_lines =
     (if i < length lines then
        (let current_line = strip (lines ! i);
             rule_lines' = (if current_line \<noteq> [] then rule_lines @ [current_line] else rule_lines);
             open_braces = count_char (CHR ''{'') current_line;
             close_braces = count_char (CHR ''}'') current_line;
             found' = (found_opening_brace \<or> open_braces > 0);
             brace_count' = brace_count + int open_braces - int close_braces
         in if found' \<and> brace_count' = 0 then (i, rule_lines')
            else scan_block lines (i + 1) brace_count' found' rule_lines')
      else (i, rule_lines))"
  by pat_completeness auto
termination
  by (relation "measure (\<lambda>(lines, i, bc, f, rl). length lines - i)") auto

declare scan_block.simps [simp del]

text \<open>The index returned by \<open>parse_rule_block(lines, start_idx, line_num)\<close>.\<close>

definition block_end :: "string list \<Rightarrow> nat \<Rightarrow> nat" where
  "block_end lines start_idx = fst (scan_block lines start_idx 0 False [])"

text \<open>The \<open>rule_content\<close> handed to the classifier.\<close>

definition block_content :: "string list \<Rightarrow> nat \<Rightarrow> string" where
  "block_content lines start_idx = join '' '' (snd (scan_block lines start_idx 0 False []))"

text \<open>Per-line brace counts, and the two quantities the loop accumulates.\<close>

definition line_delta :: "string \<Rightarrow> int" where
  "line_delta l = int (count_char (CHR ''{'') (strip l)) - int (count_char (CHR ''}'') (strip l))"

definition balance :: "string list \<Rightarrow> nat \<Rightarrow> nat \<Rightarrow> int" where
  "balance lines start j = (\<Sum>k \<leftarrow> [start..<Suc j]. line_delta (lines ! k))"

definition opened :: "string list \<Rightarrow> nat \<Rightarrow> nat \<Rightarrow> bool" where
  "opened lines start j = (\<exists>k \<in> set [start..<Suc j]. 0 < count_char (CHR ''{'') (strip (lines ! k)))"

definition closes_at :: "string list \<Rightarrow> nat \<Rightarrow> nat \<Rightarrow> bool" where
  "closes_at lines start j = (opened lines start j \<and> balance lines start j = 0)"

text \<open>
  The block end in the words of the specification: the running count of \<open>{\<close> minus \<open>}\<close>,
  taken character by character from the start line on, is zero at the end of a line after
  having been positive. The state is the running count and whether it has been positive.
\<close>

fun run_chars :: "int \<times> bool \<Rightarrow> string \<Rightarrow> int \<times> bool" where
  "run_chars (d, pos) [] = (d, pos)"
| "run_chars (d, pos) (c # cs) =
     (let d' = (if c = CHR ''{'' then d + 1 else if c = CHR ''}'' then d - 1 else d)
      in run_chars (d', pos \<or> 0 < d') cs)"

fun block_end_spec_from :: "int \<times> bool \<Rightarrow> nat \<Rightarrow> string list \<Rightarrow> nat" where
  "block_end_spec_from st i [] = i"
| "block_end_spec_from st i (l # ls) =
     (let st' = run_chars st l
      in if snd st' \<and> fst st' = 0 then i else block_end_spec_from st' (Suc i) ls)"

definition block_end_spec :: "string list \<Rightarrow> nat \<Rightarrow> nat" where
  "block_end_spec lines start_idx = block_end_spec_from (0, False) start_idx (drop start_idx lines)"

section \<open>The layer-expression rewriter\<close>

text \<open>
  \<open>str.replace(old, new)\<close>: the occurrences of \<open>old\<close> are found from left to right and
  do not overlap; the search resumes after each occurrence replaced. With an empty \<open>old\<close>,
  \<open>new\<close> is put before every character and at the end.
\<close>

function replace_str :: "string \<Rightarrow> string \<Rightarrow> string \<Rightarrow> string" where
  "replace_str old new s =
     (if old = [] then concat (map (\<lambda>c. new @ [c]) s) @ new
      else if s = [] then []
      else if starts_with old s then new @ replace_str old new (drop (length old) s)
      else hd s # replace_str old new (tl s))"
  by pat_completeness auto
termination
  by (relation "measure (\<lambda>(old, new, s). length s)") auto

declare replace_str.simps [simp del]

text \<open>
  \<open>SVRFToICVTranslator.translate_layer_expression\<close> (\<open>svrf_to_icv_translator.py\<close>); the
  derived-layer branch of \<open>FinalEnhancedTranslator.translate_to_icv\<close> applies the same three
  replacements.
\<close>

definition translate_layer_expression :: "string \<Rightarrow> string" where
  "translate_layer_expression expression =
     (if expression = [] then []
      else replace_str '' NOT '' '' ! ''
             (replace_str '' OR '' '' | '' (replace_str '' AND '' '' & '' expression)))"

text \<open>
  The rewriter in the words of the specification: every whole word (a maximal run of
  word characters) that is one of the three connectives is replaced, wherever it stands;
  every other character is copied.
\<close>

definition py_isword :: "char \<Rightarrow> bool" where
  "py_isword c = (py_isalnum c \<or> c = CHR ''_'')"

definition connective_symbol :: "string \<Rightarrow> string" where
  "connective_symbol w =
     (if w = ''AND'' then ''&'' else if w = ''OR'' then ''|'' else if w = ''NOT'' then ''!'' else w)"

lemma length_dropWhile_less: "s \<noteq> [] \<Longrightarrow> P (hd s) \<Longrightarrow> length (dropWhile P s) < length s"
  by (cases s) (auto simp: le_imp_less_Suc length_dropWhile_le)

function rewrite_words :: "string \<Rightarrow> string" where
  "rewrite_words s =
     (if s = [] then []
      else if py_isword (hd s)
        then connective_symbol (takeWhile py_isword s) @ rewrite_words (dropWhile py_isword s)
      else hd s # rewrite_words (tl s))"
  by pat_completeness auto
termination
  by (relation "measure length") (auto simp: length_dropWhile_less)

declare rewrite_words.simps [simp del]

text \<open>
  The fields of an expression: the pieces between its space characters, as
  \<open>expression.split(' ')\<close> gives them. A field holds no space; two adjacent spaces
  enclose an empty field.
\<close>

fun split_spaces :: "string \<Rightarrow> string list" where
  "split_spaces [] = [[]]"
| "split_spaces (c # cs) =
     (if c = CHR '' '' then [] # split_spaces cs
      else (case split_spaces cs of [] \<Rightarrow> [[c]] | w # ws \<Rightarrow> (c # w) # ws))"

text \<open>
  One replacement pass seen on the fields: the keyword \<open>K\<close> becomes \<open>S\<close> where it
  is a whole field with a field after it and the space before it is still there
  (\<open>avail\<close>): the first field has no space before it, and a replacement uses up the
  space that follows it.
\<close>

fun replace_fields :: "string \<Rightarrow> string \<Rightarrow> bool \<Rightarrow> string list \<Rightarrow> string list" where
  "replace_fields K S avail [] = []"
| "replace_fields K S avail [w] = [w]"
| "replace_fields K S avail (w # w' # ws) =
     (if avail \<and> w = K then S # replace_fields K S False (w' # ws)
      else w # replace_fields K S True (w' # ws))"

text \<open>The three passes in the order of the source: \<open>AND\<close>, \<open>OR\<close>, \<open>NOT\<close>.\<close>

definition rewrite_fields :: "string list \<Rightarrow> string list" where
  "rewrite_fields ws =
     replace_fields ''NOT'' ''!'' False
       (replace_fields ''OR'' ''|'' False (replace_fields ''AND'' ''&'' False ws))"

section \<open>The lexer\<close>

text \<open>\<open>TokenType\<close> and \<open>Token\<close> of \<open>svrf_drc_parser.py\<close>.\<close>

datatype token_type =
    IDENTIFIER | NUMBER | STRING
  | LAYER | INCLUDE | LAYOUT | SYSTEM | GDSII
  | AND | OR | NOT | INSIDE | BY
  | INTERNAL1 | INTERNAL2 | EXTERNAL | EXTERNAL1 | AREA | DENSITY | WINDOW | SINGULAR
  | LT | GT | EQ | ASSIGN
  | LBRACE | RBRACE | LPAREN | RPAREN | COMMA | SEMICOLON | AT
  | COMMENT | NEWLINE | EOF

record token =
  tok_type :: token_type
  tok_value :: string
  tok_line :: nat
  tok_column :: nat

definition Token :: "token_type \<Rightarrow> string \<Rightarrow> nat \<Rightarrow> nat \<Rightarrow> token" where
  "Token ty v l c = \<lparr>tok_type = ty, tok_value = v, tok_line = l, tok_column = c\<rparr>"

text \<open>
  The state of \<open>SVRFLexer\<close>. The lexer reads \<open>text\<close> only at \<open>pos\<close> and \<open>pos + 1\<close> and
  never moves back, so the state keeps the unread part \<open>text[pos:]\<close> in place of the two.
\<close>

record lexer =
  lx_rest :: string
  lx_line :: nat
  lx_column :: nat

definition lexer_keywords :: "string \<Rightarrow> token_type option" where
  "lexer_keywords = map_of
     [(''LAYER'', LAYER), (''INCLUDE'', INCLUDE), (''LAYOUT'', LAYOUT), (''SYSTEM'', SYSTEM),
      (''GDSII'', GDSII), (''AND'', AND), (''OR'', OR), (''NOT'', NOT), (''INSIDE'', INSIDE),
      (''BY'', BY), (''INTERNAL1'', INTERNAL1), (''INTERNAL2'', INTERNAL2),
      (''EXTERNAL'', EXTERNAL), (''EXTERNAL1'', EXTERNAL1), (''AREA'', AREA),
      (''DENSITY'', DENSITY), (''WINDOW'', WINDOW), (''SINGULAR'', SINGULAR)]"

definition current_char :: "lexer \<Rightarrow> char option" where
  "current_char st = (case lx_rest st of [] \<Rightarrow> None | c # cs \<Rightarrow> Some c)"

text \<open>\<open>peek_char()\<close> with its default offset 1, the only one used.\<close>

definition peek_char :: "lexer \<Rightarrow> char option" where
  "peek_char st = (case lx_rest st of c # d # cs \<Rightarrow> Some d | _ \<Rightarrow> None)"

definition advance :: "lexer \<Rightarrow> lexer" where
  "advance st =
     (case lx_rest st of
        [] \<Rightarrow> st\<lparr>lx_column := lx_column st + 1\<rparr>
      | c # cs \<Rightarrow>
          if c = CHR 0x0A then st\<lparr>lx_rest := cs, lx_line := lx_line st + 1, lx_column := 1\<rparr>
          else st\<lparr>lx_rest := cs, lx_column := lx_column st + 1\<rparr>)"

lemma rest_advance [simp]: "lx_rest (advance st) = tl (lx_rest st)"
  by (simp add: advance_def split: list.split)

lemma current_char_Some [simp]: "current_char st = Some c \<Longrightarrow> lx_rest st \<noteq> []"
  by (auto simp: current_char_def)

function skip_whitespace :: "lexer \<Rightarrow> lexer" where
  "skip_whitespace st =
     (case current_char st of
        None \<Rightarrow> st
      | Some c \<Rightarrow> if c \<in> set [CHR '' '', CHR 0x09, CHR 0x0D] then skip_whitespace (advance st) else st)"
  by pat_completeness auto
termination
  by (relation "measure (\<lambda>st. length (lx_rest st))") auto

declare skip_whitespace.simps [simp del]

text \<open>The \<open>while\<close> loop of \<open>read_comment\<close>, with the text read so far.\<close>

function comment_loop :: "lexer \<Rightarrow> string \<Rightarrow> string \<times> lexer" where
  "comment_loop st comment =
     (case current_char st of
        None \<Rightarrow> (comment, st)
      | Some c \<Rightarrow> if c \<noteq> CHR 0x0A then comment_loop (advance st) (comment @ [c]) else (comment, st))"
  by pat_completeness auto
termination
  by (relation "measure (\<lambda>(st, a). length (lx_rest st))") auto

declare comment_loop.simps [simp del]

definition read_comment :: "lexer \<Rightarrow> token \<times> lexer" where
  "read_comment st =
     (let (comment, st') =
            (if current_char st = Some (CHR ''/'') \<and> peek_char st = Some (CHR ''/'')
             then comment_loop (advance (advance st)) []
             else ([], st))
      in (Token COMMENT (strip comment) (lx_line st) (lx_column st), st'))"

text \<open>The \<open>while\<close> loop of \<open>read_string\<close>: a backslash takes the next character as it is.\<close>

function string_loop :: "char option \<Rightarrow> lexer \<Rightarrow> string \<Rightarrow> string \<times> lexer" where
  "string_loop quote_char st v =
     (case current_char st of
        None \<Rightarrow> (v, st)
      | Some c \<Rightarrow>
          if Some c \<noteq> quote_char then
            (if c = CHR 0x5C then
               (let st1 = advance st
                in case current_char st1 of
                     None \<Rightarrow> string_loop quote_char st1 v
                   | Some d \<Rightarrow> string_loop quote_char (advance st1) (v @ [d]))
             else string_loop quote_char (advance st) (v @ [c]))
          else (v, st))"
  by pat_completeness auto
termination
  by (relation "measure (\<lambda>(q, st, a). length (lx_rest st))") (auto simp: current_char_def split: list.splits)

declare string_loop.simps [simp del]

definition read_string :: "lexer \<Rightarrow> token \<times> lexer" where
  "read_string st =
     (let quote_char = current_char st;
          (v, st2) = string_loop quote_char (advance st) [];
          st3 = (if current_char st2 \<noteq> None \<and> current_char st2 = quote_char then advance st2 else st2)
      in (Token STRING v (lx_line st) (lx_column st), st3))"

function number_loop :: "lexer \<Rightarrow> string \<Rightarrow> string \<times> lexer" where
  "number_loop st v =
     (case current_char st of
        None \<Rightarrow> (v, st)
      | Some c \<Rightarrow> if py_isdigit c \<or> c = CHR ''.'' then number_loop (advance st) (v @ [c]) else (v, st))"
  by pat_completeness auto
termination
  by (relation "measure (\<lambda>(st, a). length (lx_rest st))") auto

declare number_loop.simps [simp del]

definition read_number :: "lexer \<Rightarrow> token \<times> lexer" where
  "read_number st =
     (let (v, st') = number_loop st [] in (Token NUMBER v (lx_line st) (lx_column st), st'))"

function identifier_loop :: "lexer \<Rightarrow> string \<Rightarrow> string \<times> lexer" where
  "identifier_loop st v =
     (case current_char st of
        None \<Rightarrow> (v, st)
      | Some c \<Rightarrow> if py_isalnum c \<or> c = CHR ''_'' then identifier_loop (advance st) (v @ [c]) else (v, st))"
  by pat_completeness auto
termination
  by (relation "measure (\<lambda>(st, a). length (lx_rest st))") auto

declare identifier_loop.simps [simp del]

definition read_identifier :: "lexer \<Rightarrow> token \<times> lexer" where
  "read_identifier st =
     (let (v, st') = identifier_loop st [];
          token_type = (case lexer_keywords v of Some ty \<Rightarrow> ty | None \<Rightarrow> IDENTIFIER)
      in (Token token_type v (lx_line st) (lx_column st), st'))"

definition single_char_tokens :: "char \<Rightarrow> token_type option" where
  "single_char_tokens = map_of
     [(CHR ''{'', LBRACE), (CHR ''}'', RBRACE), (CHR ''('', LPAREN), (CHR '')'', RPAREN),
      (CHR '','', COMMA), (CHR '';'', SEMICOLON), (CHR ''@'', AT), (CHR ''<'', LT),
      (CHR ''>'', GT), (CHR ''='', ASSIGN)]"

text \<open>
  One pass through the body of the \<open>while\<close> loop of \<open>tokenize\<close>, after \<open>skip_whitespace\<close>,
  at the character \<open>char\<close>: the token appended, if any, and the state after it.
\<close>

definition lex_step :: "char \<Rightarrow> lexer \<Rightarrow> token option \<times> lexer" where
  "lex_step char st =
     (if char = CHR ''/'' \<and> peek_char st = Some (CHR ''/'') then
        (let (t, st') = read_comment st in (Some t, st'))
      else if char = CHR 0x0A then
        (Some (Token NEWLINE [char] (lx_line st) (lx_column st)), advance st)
      else if char \<in> set [CHR 0x22, CHR 0x27] then
        (let (t, st') = read_string st in (Some t, st'))
      else if py_isdigit char \<or>
              (char = CHR ''.'' \<and> (case peek_char st of None \<Rightarrow> False | Some p \<Rightarrow> py_isdigit p)) then
        (let (t, st') = read_number st in (Some t, st'))
      else if py_isalpha char \<or> char = CHR ''_'' then
        (let (t, st') = read_identifier st in (Some t, st'))
      else if char = CHR ''='' \<and> peek_char st = Some (CHR ''='') then
        (Some (Token EQ ''=='' (lx_line st) (lx_column st)), advance (advance st))
      else (case single_char_tokens char of
              Some ty \<Rightarrow> (Some (Token ty [char] (lx_line st) (lx_column st)), advance st)
            | None \<Rightarrow> (None, advance st)))"

text \<open>Every loop leaves no more unread text than it found.\<close>

lemma skip_whitespace_length: "length (lx_rest (skip_whitespace st)) \<le> length (lx_rest st)"
proof (induction st rule: skip_whitespace.induct)
  case (1 st)
  show ?case
  proof (cases "current_char st")
    case None
    then show ?thesis by (subst skip_whitespace.simps) simp
  next
    case (Some c)
    show ?thesis
    proof (cases "c \<in> set [CHR '' '', CHR 0x09, CHR 0x0D]")
      case True
      from "1.IH"[OF Some True] Some True show ?thesis
        by (subst skip_whitespace.simps) simp
    next
      case False
      with Some show ?thesis by (subst skip_whitespace.simps) simp
    qed
  qed
qed

lemma comment_loop_length: "length (lx_rest (snd (comment_loop st a))) \<le> length (lx_rest st)"
proof (induction st a rule: comment_loop.induct)
  case (1 st a)
  show ?case
  proof (cases "current_char st")
    case None
    then show ?thesis by (subst comment_loop.simps) simp
  next
    case (Some c)
    show ?thesis
    proof (cases "c \<noteq> CHR 0x0A")
      case True
      from "1.IH"[OF Some True] Some True show ?thesis
        by (subst comment_loop.simps) simp
    next
      case False
      with Some show ?thesis by (subst comment_loop.simps) simp
    qed
  qed
qed

lemma number_loop_length: "length (lx_rest (snd (number_loop st a))) \<le> length (lx_rest st)"
proof (induction st a rule: number_loop.induct)
  case (1 st a)
  show ?case
  proof (cases "current_char st")
    case None
    then show ?thesis by (subst number_loop.simps) simp
  next
    case (Some c)
    show ?thesis
    proof (cases "py_isdigit c \<or> c = CHR ''.''")
      case True
      from "1.IH"[OF Some True] Some True show ?thesis
        by (subst number_loop.simps) simp
    next
      case False
      with Some show ?thesis by (subst number_loop.simps) simp
    qed
  qed
qed

lemma identifier_loop_length: "length (lx_rest (snd (identifier_loop st a))) \<le> length (lx_rest st)"
proof (induction st a rule: identifier_loop.induct)
  case (1 st a)
  show ?case
  proof (cases "current_char st")
    case None
    then show ?thesis by (subst identifier_loop.simps) simp
  next
    case (Some c)
    show ?thesis
    proof (cases "py_isalnum c \<or> c = CHR ''_''")
      case True
      from "1.IH"[OF Some True] Some True show ?thesis
        by (subst identifier_loop.simps) simp
    next
      case False
      with Some show ?thesis by (subst identifier_loop.simps) simp
    qed
  qed
qed

lemma string_loop_length: "length (lx_rest (snd (string_loop q st a))) \<le> length (lx_rest st)"
proof (induction q st a rule: string_loop.induct)
  case (1 q st a)
  show ?case
  proof (cases "current_char st")
    case None
    then show ?thesis by (subst string_loop.simps) simp
  next
    case (Some c)
    show ?thesis
    proof (cases "Some c \<noteq> q")
      case False
      then have q: "q = Some c" by simp
      have "string_loop q st a = (a, st)"
        by (subst string_loop.simps) (simp add: Some q)
      then show ?thesis by simp
    next
      case nq: True
      show ?thesis
      proof (cases "c = CHR 0x5C")
        case False
        from "1.IH"(3)[OF Some nq False] Some nq False show ?thesis
          by (subst string_loop.simps) simp
      next
        case bs: True
        show ?thesis
        proof (cases "current_char (advance st)")
          case None
          from "1.IH"(1)[OF Some nq bs refl None] Some nq bs None show ?thesis
            by (subst string_loop.simps) (simp add: Let_def)
        next
          case (Some d)
          from "1.IH"(2)[OF \<open>current_char st = Some c\<close> nq bs refl Some] \<open>current_char st = Some c\<close> nq bs Some
          show ?thesis
            by (subst string_loop.simps) (simp add: Let_def)
        qed
      qed
    qed
  qed
qed

lemma advance_length: "current_char st = Some c \<Longrightarrow> length (lx_rest (advance st)) < length (lx_rest st)"
  by (auto simp: current_char_def split: list.splits)

lemma advance_length_le: "length (lx_rest (advance st)) \<le> length (lx_rest st)"
  by simp

lemma read_comment_length:
  assumes "current_char st = Some (CHR ''/'')" "peek_char st = Some (CHR ''/'')"
  shows "length (lx_rest (snd (read_comment st))) < length (lx_rest st)"
proof -
  obtain cm st' where l: "comment_loop (advance (advance st)) [] = (cm, st')"
    by (cases "comment_loop (advance (advance st)) []")
  have "length (lx_rest st') \<le> length (lx_rest (advance (advance st)))"
    using comment_loop_length[of "advance (advance st)" "[]"] l by simp
  also have "\<dots> \<le> length (lx_rest (advance st))" by (rule advance_length_le)
  also have "\<dots> < length (lx_rest st)" using assms(1) by (rule advance_length)
  finally have "length (lx_rest st') < length (lx_rest st)" .
  then show ?thesis using assms l by (simp add: read_comment_def)
qed

lemma read_string_length:
  assumes "current_char st = Some c"
  shows "length (lx_rest (snd (read_string st))) < length (lx_rest st)"
proof -
  obtain v st2 where l: "string_loop (Some c) (advance st) [] = (v, st2)"
    by (cases "string_loop (Some c) (advance st) []")
  have "length (lx_rest st2) \<le> length (lx_rest (advance st))"
    using string_loop_length[of "Some c" "advance st" "[]"] l by simp
  also have "\<dots> < length (lx_rest st)" using assms by (rule advance_length)
  finally have a: "length (lx_rest st2) < length (lx_rest st)" .
  have "length (lx_rest (advance st2)) \<le> length (lx_rest st2)" by (rule advance_length_le)
  from this a have b: "length (lx_rest (advance st2)) < length (lx_rest st)" by (rule le_less_trans)
  have "snd (read_string st) = st2 \<or> snd (read_string st) = advance st2"
    using assms l by (simp add: read_string_def Let_def)
  with a b show ?thesis by auto
qed

lemma read_number_length:
  assumes "current_char st = Some c" "py_isdigit c \<or> c = CHR ''.''"
  shows "length (lx_rest (snd (read_number st))) < length (lx_rest st)"
proof -
  have e: "number_loop st [] = number_loop (advance st) [c]"
    using assms by (subst number_loop.simps) auto
  obtain v st' where l: "number_loop (advance st) [c] = (v, st')"
    by (cases "number_loop (advance st) [c]")
  have "length (lx_rest st') \<le> length (lx_rest (advance st))"
    using number_loop_length[of "advance st" "[c]"] l by simp
  also have "\<dots> < length (lx_rest st)" using assms(1) by (rule advance_length)
  finally have "length (lx_rest st') < length (lx_rest st)" .
  then show ?thesis using e l by (simp add: read_number_def)
qed

lemma read_identifier_length:
  assumes "current_char st = Some c" "py_isalpha c \<or> c = CHR ''_''"
  shows "length (lx_rest (snd (read_identifier st))) < length (lx_rest st)"
proof -
  have e: "identifier_loop st [] = identifier_loop (advance st) [c]"
    using assms by (subst identifier_loop.simps) (auto simp: py_isalnum_def)
  obtain v st' where l: "identifier_loop (advance st) [c] = (v, st')"
    by (cases "identifier_loop (advance st) [c]")
  have "length (lx_rest st') \<le> length (lx_rest (advance st))"
    using identifier_loop_length[of "advance st" "[c]"] l by simp
  also have "\<dots> < length (lx_rest st)" using assms(1) by (rule advance_length)
  finally have "length (lx_rest st') < length (lx_rest st)" .
  then show ?thesis using e l by (simp add: read_identifier_def Let_def)
qed

text \<open>One pass through the loop body consumes at least one character.\<close>

lemma lex_step_length:
  assumes "current_char st = Some c"
  shows "length (lx_rest (snd (lex_step c st))) < length (lx_rest st)"
proof -
  have adv: "length (lx_rest (advance st)) < length (lx_rest st)"
    using assms by (rule advance_length)
  have "length (lx_rest (advance (advance st))) \<le> length (lx_rest (advance st))"
    by (rule advance_length_le)
  from this adv have adv2: "length (lx_rest (advance (advance st))) < length (lx_rest st)"
    by (rule le_less_trans)
  consider (cm) "c = CHR ''/'' \<and> peek_char st = Some (CHR ''/'')"
    | (other) "\<not> (c = CHR ''/'' \<and> peek_char st = Some (CHR ''/''))" by blast
  then show ?thesis
  proof cases
    case cm
    then have "snd (lex_step c st) = snd (read_comment st)"
      by (simp add: lex_step_def split: prod.split)
    then show ?thesis using read_comment_length[of st] assms cm by simp
  next
    case other
    have "snd (lex_step c st) = advance st \<or> snd (lex_step c st) = advance (advance st)
       \<or> snd (lex_step c st) = snd (read_string st)
       \<or> (snd (lex_step c st) = snd (read_number st) \<and> (py_isdigit c \<or> c = CHR ''.''))
       \<or> (snd (lex_step c st) = snd (read_identifier st) \<and> (py_isalpha c \<or> c = CHR ''_''))"
      using other unfolding lex_step_def
      by (simp split: prod.split option.split del: set_simps) blast
    then show ?thesis
      using adv adv2 read_string_length[OF assms] read_number_length[OF assms]
        read_identifier_length[OF assms] by auto
  qed
qed

lemma tokenize_measure:
  assumes "current_char (skip_whitespace st) = Some char"
      and "lex_step char (skip_whitespace st) = (t, st2)"
  shows "length (lx_rest st2) < length (lx_rest st)"
proof -
  have "length (lx_rest st2) < length (lx_rest (skip_whitespace st))"
    using lex_step_length[OF assms(1)] assms(2) by simp
  also have "\<dots> \<le> length (lx_rest st)" by (rule skip_whitespace_length)
  finally show ?thesis .
qed

text \<open>
  The loop of \<open>tokenize\<close>, from the state \<open>st\<close> on, with the end-of-input token that
  \<open>tokenize\<close> appends after the loop.
\<close>

function tokenize_from :: "lexer \<Rightarrow> token list" where
  "tokenize_from st =
     (case current_char st of
        None \<Rightarrow> [Token EOF [] (lx_line st) (lx_column st)]
      | Some c0 \<Rightarrow>
          (let st1 = skip_whitespace st
           in case current_char st1 of
                None \<Rightarrow> [Token EOF [] (lx_line st1) (lx_column st1)]
              | Some char \<Rightarrow>
                  (case lex_step char st1 of
                     (Some t, st2) \<Rightarrow> t # tokenize_from st2
                   | (None, st2) \<Rightarrow> tokenize_from st2)))"
  by pat_completeness auto
termination
  by (relation "measure (\<lambda>st. length (lx_rest st))") (auto dest: sym intro: tokenize_measure)

declare tokenize_from.simps [simp del]

text \<open>\<open>SVRFLexer(text).tokenize()\<close>.\<close>

definition tokenize :: "string \<Rightarrow> token list" where
  "tokenize text = tokenize_from \<lparr>lx_rest = text, lx_line = 1, lx_column = 1\<rparr>"









section \<open>The token parser\<close>

text \<open>
  \<open>LayerDefinition\<close>, \<open>DRCRule\<close> and \<open>ParseResult\<close> of \<open>svrf_drc_parser.py\<close>. The fields carry a
  prefix because a record field is a constant of the theory. \<open>additional_params\<close> is a
  dictionary: an association list in insertion order, its values either \<open>True\<close> or the list of
  window dimensions. The type \<open>'f\<close> is Python's \<open>float\<close>; the parser only stores floats.
\<close>

record LayerDefinition =
  ld_name :: string
  ld_gds_layer :: "int option"
  ld_expression :: "string option"
  ld_line :: nat

datatype 'f param = PTrue | PWindow "'f list"

record 'f DRCRule =
  drc_name :: string
  drc_description :: string
  drc_rule_type :: string
  drc_layer :: string
  drc_constraint :: string
  drc_value :: 'f
  drc_line :: nat
  drc_additional_params :: "(string \<times> 'f param) list"

record 'f ParseResult =
  res_layers :: "LayerDefinition list"
  res_rules :: "'f DRCRule list"
  res_includes :: "string list"
  res_errors :: "string list"
  res_warnings :: "string list"

text \<open>
  The state of \<open>SVRFParser\<close>. The attribute \<open>current_token\<close> is \<open>tokens[pos]\<close> from the constructor
  on (\<open>None\<close> for an empty token list) and \<open>advance\<close> keeps it so; it is read off the other two.
\<close>

record 'f parser =
  p_tokens :: "token list"
  p_pos :: nat
  p_layers :: "LayerDefinition list"
  p_rules :: "'f DRCRule list"
  p_includes :: "string list"
  p_errors :: "string list"
  p_warnings :: "string list"

definition parser_init :: "token list \<Rightarrow> 'f parser" where
  "parser_init ts =
     \<lparr>p_tokens = ts, p_pos = 0, p_layers = [], p_rules = [], p_includes = [], p_errors = [], p_warnings = []\<rparr>"

definition current_token :: "'f parser \<Rightarrow> token option" where
  "current_token p = (if p_pos p < length (p_tokens p) then Some (p_tokens p ! p_pos p) else None)"

text \<open>\<open>SVRFParser.advance\<close>: at the last token it does nothing.\<close>

definition parser_advance :: "'f parser \<Rightarrow> 'f parser" where
  "parser_advance p = (if p_pos p + 1 < length (p_tokens p) then p\<lparr>p_pos := p_pos p + 1\<rparr> else p)"

text \<open>\<open>peek()\<close> with its default offset 1, the only one used.\<close>

definition peek :: "'f parser \<Rightarrow> token option" where
  "peek p = (if p_pos p + 1 < length (p_tokens p) then Some (p_tokens p ! (p_pos p + 1)) else None)"

text \<open>
  What a call can do: not return (\<open>None\<close>), raise (\<open>Some (Inl e)\<close>) or return a value
  (\<open>Some (Inr x)\<close>). The \<open>while\<close> loops that raise nothing have the plain type \<open>'a option\<close>.
\<close>

datatype error = ValueError | OverflowError | AttributeError

definition ret :: "'a \<Rightarrow> (error + 'a) option" where
  "ret x = Some (Inr x)"

definition raise :: "error \<Rightarrow> (error + 'a) option" where
  "raise e = Some (Inl e)"

definition bind_res :: "(error + 'a) option \<Rightarrow> ('a \<Rightarrow> (error + 'b) option) \<Rightarrow> (error + 'b) option" where
  "bind_res m f = (case m of None \<Rightarrow> None | Some (Inl e) \<Rightarrow> Some (Inl e) | Some (Inr x) \<Rightarrow> f x)"

definition bind_loop :: "'a option \<Rightarrow> ('a \<Rightarrow> (error + 'b) option) \<Rightarrow> (error + 'b) option" where
  "bind_loop m f = (case m of None \<Rightarrow> None | Some x \<Rightarrow> f x)"

partial_function (option) skip_newlines :: "'f parser \<Rightarrow> 'f parser option" where
  "skip_newlines p =
     (case current_token p of
        None \<Rightarrow> Some p
      | Some t \<Rightarrow> if tok_type t = NEWLINE then skip_newlines (parser_advance p) else Some p)"

partial_function (option) skip_comments :: "'f parser \<Rightarrow> 'f parser option" where
  "skip_comments p =
     (case current_token p of
        None \<Rightarrow> Some p
      | Some t \<Rightarrow> if tok_type t = COMMENT then skip_comments (parser_advance p) else Some p)"

definition parse_include :: "'f parser \<Rightarrow> 'f parser" where
  "parse_include p =
     (let p1 = parser_advance p in
      case current_token p1 of
        None \<Rightarrow> p1
      | Some t \<Rightarrow>
          if tok_type t = STRING then parser_advance (p1\<lparr>p_includes := p_includes p1 @ [tok_value t]\<rparr>)
          else p1)"

text \<open>The \<open>while\<close> loop of \<open>parse_layer_expression\<close>, with \<open>expression_parts\<close>.\<close>

partial_function (option) expression_loop :: "'f parser \<Rightarrow> string list \<Rightarrow> (string list \<times> 'f parser) option" where
  "expression_loop p expression_parts =
     (case current_token p of
        None \<Rightarrow> Some (expression_parts, p)
      | Some t \<Rightarrow>
          if tok_type t \<notin> set [NEWLINE, EOF, LBRACE]
          then expression_loop (parser_advance p) (expression_parts @ [tok_value t])
          else Some (expression_parts, p))"

definition parse_layer_expression :: "'f parser \<Rightarrow> (string \<times> 'f parser) option" where
  "parse_layer_expression p =
     map_option (\<lambda>(expression_parts, p'). (join '' '' expression_parts, p')) (expression_loop p [])"

text \<open>Python's \<open>str\<close> of a non-negative integer, for the f-string of the error message.\<close>

function str_nat :: "nat \<Rightarrow> string" where
  "str_nat n = (if n < 10 then [char_of (48 + n)] else str_nat (n div 10) @ [char_of (48 + n mod 10)])"
  by pat_completeness auto
termination
  by (relation "measure (\<lambda>n. n)") auto

declare str_nat.simps [simp del]

text \<open>
  \<open>parse_layer_definition\<close>. The builtins are parameters: \<open>flt s\<close> is \<open>float(s)\<close>, \<open>None\<close> where it
  raises \<open>ValueError\<close>, and \<open>trunc f\<close> is \<open>int(f)\<close> of a float, which raises for an infinity or a
  NaN. Reading \<open>.line\<close> of no token raises \<open>AttributeError\<close>.
\<close>

definition parse_layer_definition ::
    "(string \<Rightarrow> 'f option) \<Rightarrow> ('f \<Rightarrow> error + int) \<Rightarrow> 'f parser \<Rightarrow> (error + 'f parser) option" where
  "parse_layer_definition flt trunc p =
     (case current_token p of
        None \<Rightarrow> raise AttributeError
      | Some t0 \<Rightarrow>
          let layer_line = tok_line t0; p1 = parser_advance p in
          if (case current_token p1 of None \<Rightarrow> True | Some t1 \<Rightarrow> tok_type t1 \<noteq> IDENTIFIER)
          then ret (p1\<lparr>p_errors := p_errors p1 @ [''Expected layer name at line '' @ str_nat layer_line]\<rparr>)
          else
            let layer_name = tok_value (p_tokens p1 ! p_pos p1); p2 = parser_advance p1 in
            (case current_token p2 of
               None \<Rightarrow> ret p2
             | Some t2 \<Rightarrow>
                 if tok_type t2 = NUMBER then
                   (case flt (tok_value t2) of
                      None \<Rightarrow> raise ValueError
                    | Some f \<Rightarrow>
                        (case trunc f of
                           Inl e \<Rightarrow> raise e
                         | Inr gds_layer \<Rightarrow>
                             ret (parser_advance (p2\<lparr>p_layers := p_layers p2 @
                               [\<lparr>ld_name = layer_name, ld_gds_layer = Some gds_layer,
                                 ld_expression = None, ld_line = layer_line\<rparr>]\<rparr>))))
                 else if tok_type t2 = ASSIGN then
                   bind_loop (parse_layer_expression (parser_advance p2)) (\<lambda>(expression, p3).
                     ret (p3\<lparr>p_layers := p_layers p3 @
                       [\<lparr>ld_name = layer_name, ld_gds_layer = None,
                         ld_expression = Some expression, ld_line = layer_line\<rparr>]\<rparr>))
                 else ret p2))"

definition parse_derived_layer :: "'f parser \<Rightarrow> 'f parser option" where
  "parse_derived_layer p =
     (case current_token p of
        None \<Rightarrow> Some p
      | Some t \<Rightarrow>
          if tok_type t \<noteq> IDENTIFIER then Some p
          else
            let layer_name = tok_value t; layer_line = tok_line t; p1 = parser_advance p in
            (case current_token p1 of
               None \<Rightarrow> Some p1
             | Some t1 \<Rightarrow>
                 if tok_type t1 = ASSIGN then
                   map_option (\<lambda>(expression, p2).
                       p2\<lparr>p_layers := p_layers p2 @
                         [\<lparr>ld_name = layer_name, ld_gds_layer = None,
                           ld_expression = Some expression, ld_line = layer_line\<rparr>]\<rparr>)
                     (parse_layer_expression (parser_advance p1))
                 else Some p1))"

text \<open>
  The guarded reads that \<open>parse_drc_rule\<close> repeats in its branches: a value is read and the
  token consumed if the current token has one of the given types, and kept otherwise.
\<close>

definition read_if :: "token_type list \<Rightarrow> string \<Rightarrow> 'f parser \<Rightarrow> string \<times> 'f parser" where
  "read_if tys old p =
     (case current_token p of
        None \<Rightarrow> (old, p)
      | Some t \<Rightarrow> if tok_type t \<in> set tys then (tok_value t, parser_advance p) else (old, p))"

definition read_float :: "(string \<Rightarrow> 'f option) \<Rightarrow> 'f \<Rightarrow> 'f parser \<Rightarrow> (error + 'f \<times> 'f parser) option" where
  "read_float flt old p =
     (case current_token p of
        None \<Rightarrow> ret (old, p)
      | Some t \<Rightarrow>
          if tok_type t = NUMBER then
            (case flt (tok_value t) of
               None \<Rightarrow> raise ValueError
             | Some f \<Rightarrow> ret (f, parser_advance p))
          else ret (old, p))"

text \<open>The loop over the additional parameters: a token that is no identifier is not consumed.\<close>

partial_function (option) params_loop ::
    "'f parser \<Rightarrow> (string \<times> 'f param) list \<Rightarrow> ((string \<times> 'f param) list \<times> 'f parser) option" where
  "params_loop p additional_params =
     (case current_token p of
        None \<Rightarrow> Some (additional_params, p)
      | Some t \<Rightarrow>
          if tok_type t \<notin> set [RBRACE, NEWLINE] then
            (if tok_type t = IDENTIFIER
             then params_loop (parser_advance p) (AList.update (tok_value t) PTrue additional_params)
             else params_loop p additional_params)
          else Some (additional_params, p))"

text \<open>The loop over the window dimensions; it runs at most twice.\<close>

function window_loop ::
    "(string \<Rightarrow> 'f option) \<Rightarrow> 'f parser \<Rightarrow> 'f list \<Rightarrow> (error + 'f list \<times> 'f parser) option" where
  "window_loop flt p window_params =
     (case current_token p of
        None \<Rightarrow> ret (window_params, p)
      | Some t \<Rightarrow>
          if tok_type t = NUMBER \<and> length window_params < 2 then
            (case flt (tok_value t) of
               None \<Rightarrow> raise ValueError
             | Some f \<Rightarrow> window_loop flt (parser_advance p) (window_params @ [f]))
          else ret (window_params, p))"
  by pat_completeness auto
termination
  by (relation "measure (\<lambda>(flt, p, window_params). 2 - length window_params)") auto

declare window_loop.simps [simp del]

text \<open>The loop \<open># Skip to closing brace\<close>.\<close>

partial_function (option) skip_to_rbrace :: "'f parser \<Rightarrow> 'f parser option" where
  "skip_to_rbrace p =
     (case current_token p of
        None \<Rightarrow> Some p
      | Some t \<Rightarrow> if tok_type t \<noteq> RBRACE then skip_to_rbrace (parser_advance p) else Some p)"

text \<open>
  The rule body of \<open>parse_drc_rule\<close>, from \<open>rule_type = ""\<close> to the end of the \<open>if\<close> on the current
  token: the result is \<open>(rule_type, layer, constraint, value, additional_params)\<close> and the parser.
\<close>

definition rule_body ::
    "(string \<Rightarrow> 'f::zero option) \<Rightarrow> 'f parser \<Rightarrow>
     (error + (string \<times> string \<times> string \<times> 'f \<times> (string \<times> 'f param) list) \<times> 'f parser) option" where
  "rule_body flt p =
     (case current_token p of
        None \<Rightarrow> ret (([], [], [], 0, []), p)
      | Some t \<Rightarrow>
          let rule_type = tok_value t; p1 = parser_advance p in
          if rule_type \<in> set [''INTERNAL1'', ''INTERNAL2'', ''EXTERNAL'', ''EXTERNAL1''] then
            (let (layer, p2) = read_if [IDENTIFIER] [] p1;
                 (constraint, p3) = read_if [LT, GT, EQ] [] p2 in
             bind_res (read_float flt 0 p3) (\<lambda>(v, p4).
             bind_loop (params_loop p4 []) (\<lambda>(additional_params, p5).
               ret ((rule_type, layer, constraint, v, additional_params), p5))))
          else if rule_type = ''AREA'' then
            (let (layer, p2) = read_if [IDENTIFIER] [] p1;
                 (constraint, p3) = read_if [LT, GT] [] p2 in
             bind_res (read_float flt 0 p3) (\<lambda>(v, p4).
               ret ((rule_type, layer, constraint, v, []), p4)))
          else if rule_type = ''DENSITY'' then
            (let (layer, p2) = read_if [IDENTIFIER] [] p1 in
             bind_res
               (case current_token p2 of
                  None \<Rightarrow> ret ([], p2)
                | Some w \<Rightarrow>
                    if tok_type w = WINDOW then
                      bind_res (window_loop flt (parser_advance p2) []) (\<lambda>(window_params, p3).
                        ret ([(''window'', PWindow window_params)], p3))
                    else ret ([], p2))
               (\<lambda>(additional_params, p3).
                  let (constraint, p4) = read_if [LT, GT] [] p3 in
                  bind_res (read_float flt 0 p4) (\<lambda>(v, p5).
                    ret ((rule_type, layer, constraint, v, additional_params), p5))))
          else ret ((rule_type, [], [], 0, []), p1))"

definition parse_drc_rule :: "(string \<Rightarrow> 'f::zero option) \<Rightarrow> 'f parser \<Rightarrow> (error + 'f parser) option" where
  "parse_drc_rule flt p =
     (if (case current_token p of None \<Rightarrow> True | Some t \<Rightarrow> tok_type t \<noteq> IDENTIFIER)
      then ret (parser_advance p)
      else
        let rule_name = tok_value (p_tokens p ! p_pos p); rule_line = tok_line (p_tokens p ! p_pos p);
            p1 = parser_advance p in
        if (case current_token p1 of None \<Rightarrow> True | Some t \<Rightarrow> tok_type t \<noteq> LBRACE)
        then ret p1
        else
          bind_loop (skip_newlines (parser_advance p1)) (\<lambda>p2.
          bind_loop (skip_comments p2) (\<lambda>p3.
            let (description, p4) =
                  (case current_token p3 of
                     None \<Rightarrow> ([], p3)
                   | Some t \<Rightarrow>
                       if tok_type t = AT then read_if [STRING] [] (parser_advance p3) else ([], p3)) in
            bind_loop (skip_newlines p4) (\<lambda>p5.
            bind_res (rule_body flt p5) (\<lambda>((rule_type, layer, constraint, v, additional_params), p6).
            bind_loop (skip_to_rbrace p6) (\<lambda>p7.
              let p8 = (case current_token p7 of
                          None \<Rightarrow> p7
                        | Some t \<Rightarrow> if tok_type t = RBRACE then parser_advance p7 else p7) in
              ret (p8\<lparr>p_rules := p_rules p8 @
                [\<lparr>drc_name = rule_name, drc_description = description, drc_rule_type = rule_type,
                  drc_layer = layer, drc_constraint = constraint, drc_value = v,
                  drc_line = rule_line, drc_additional_params = additional_params\<rparr>]\<rparr>)))))))"

text \<open>The loop that skips a \<open>LAYOUT\<close> declaration.\<close>

partial_function (option) skip_layout :: "'f parser \<Rightarrow> 'f parser option" where
  "skip_layout p =
     (case current_token p of
        None \<Rightarrow> Some p
      | Some t \<Rightarrow>
          if tok_type t \<notin> set [NEWLINE, EOF] then skip_layout (parser_advance p) else Some p)"

text \<open>The main loop of \<open>parse\<close>; \<open>break\<close> and the end of the loop both return the parser.\<close>

partial_function (option) parse_loop ::
    "(string \<Rightarrow> 'f::zero option) \<Rightarrow> ('f \<Rightarrow> error + int) \<Rightarrow> 'f parser \<Rightarrow> (error + 'f parser) option" where
  "parse_loop flt trunc p =
     (case current_token p of
        None \<Rightarrow> Some (Inr p)
      | Some t \<Rightarrow>
          if tok_type t = EOF then Some (Inr p)
          else
            (case skip_newlines p of
               None \<Rightarrow> None
             | Some p1 \<Rightarrow>
                 (case skip_comments p1 of
                    None \<Rightarrow> None
                  | Some p2 \<Rightarrow>
                      (case current_token p2 of
                         None \<Rightarrow> Some (Inr p2)
                       | Some c \<Rightarrow>
                           if tok_type c = EOF then Some (Inr p2)
                           else if tok_type c = INCLUDE then parse_loop flt trunc (parse_include p2)
                           else if tok_type c = LAYER then
                             (case parse_layer_definition flt trunc p2 of
                                None \<Rightarrow> None
                              | Some r \<Rightarrow>
                                  (case r of Inl e \<Rightarrow> Some (Inl e) | Inr p3 \<Rightarrow> parse_loop flt trunc p3))
                           else if tok_type c = LAYOUT then
                             (case skip_layout p2 of
                                None \<Rightarrow> None
                              | Some p3 \<Rightarrow> parse_loop flt trunc p3)
                           else if tok_type c = IDENTIFIER then
                             (if (case peek p2 of None \<Rightarrow> False | Some n \<Rightarrow> tok_type n = ASSIGN) then
                                (case parse_derived_layer p2 of
                                   None \<Rightarrow> None
                                 | Some p3 \<Rightarrow> parse_loop flt trunc p3)
                              else if (case peek p2 of None \<Rightarrow> False | Some n \<Rightarrow> tok_type n = LBRACE) then
                                (case parse_drc_rule flt p2 of
                                   None \<Rightarrow> None
                                 | Some r \<Rightarrow>
                                     (case r of Inl e \<Rightarrow> Some (Inl e) | Inr p3 \<Rightarrow> parse_loop flt trunc p3))
                              else parse_loop flt trunc (parser_advance p2))
                           else parse_loop flt trunc (parser_advance p2)))))"

definition parse ::
    "(string \<Rightarrow> 'f::zero option) \<Rightarrow> ('f \<Rightarrow> error + int) \<Rightarrow> token list \<Rightarrow> (error + 'f ParseResult) option" where
  "parse flt trunc ts =
     bind_res (parse_loop flt trunc (parser_init ts)) (\<lambda>p.
       ret \<lparr>res_layers = p_layers p, res_rules = p_rules p, res_includes = p_includes p,
            res_errors = p_errors p, res_warnings = p_warnings p\<rparr>)"

section \<open>Where a rule block ends\<close>

text \<open>
  Loop invariant of \<open>scan_block\<close>: on entry at index \<open>i\<close>, \<open>brace_count\<close> is the sum of the
  per-line differences of the lines \<open>start..<i\<close>, \<open>found_opening_brace\<close> says whether one of
  them contains an opening brace, and none of them closed the block.
\<close>

lemma scan_block_invariant:
  assumes "start \<le> i" "i \<le> length lines"
   and "\<forall>j. start \<le> j \<and> j < i \<longrightarrow> \<not> closes_at lines start j"
   and "bc = (\<Sum>k \<leftarrow> [start..<i]. line_delta (lines ! k))"
   and "f = (\<exists>k \<in> set [start..<i]. 0 < count_char (CHR ''{'') (strip (lines ! k)))"
  shows "let r = fst (scan_block lines i bc f rl) in
         start \<le> r \<and> r \<le> length lines \<and> (\<forall>j. start \<le> j \<and> j < r \<longrightarrow> \<not> closes_at lines start j)
          \<and> (r < length lines \<longrightarrow> closes_at lines start r)"
  using assms
proof (induction lines i bc f rl rule: scan_block.induct)
  case (1 lines i bc f rl)
  show ?case
  proof (cases "i < length lines")
    case False
    with 1(2-) show ?thesis by (simp add: scan_block.simps)
  next
    case True
    let ?cl = "strip (lines ! i)"
    let ?f' = "f \<or> 0 < count_char (CHR ''{'') ?cl"
    let ?bc' = "bc + int (count_char (CHR ''{'') ?cl) - int (count_char (CHR ''}'') ?cl)"
    let ?rl' = "if ?cl \<noteq> [] then rl @ [?cl] else rl"
    have bal: "?bc' = balance lines start i"
      using 1(2-) by (simp add: balance_def line_delta_def)
    have op: "?f' = opened lines start i"
      using 1(2-) by (auto simp add: opened_def)
    show ?thesis
    proof (cases "?f' \<and> ?bc' = 0")
      case stop: True
      then have "closes_at lines start i"
        using bal op by (simp add: closes_at_def)
      moreover have "fst (scan_block lines i bc f rl) = i"
        using True stop by (subst scan_block.simps) (simp add: Let_def)
      ultimately show ?thesis using 1(2-) True by simp
    next
      case go: False
      then have nc: "\<not> closes_at lines start i"
        using bal op by (simp add: closes_at_def)
      have step: "scan_block lines i bc f rl = scan_block lines (i + 1) ?bc' ?f' ?rl'"
        using True go by (subst scan_block.simps) (auto simp add: Let_def)
      have "let r = fst (scan_block lines (i + 1) ?bc' ?f' ?rl') in
         start \<le> r \<and> r \<le> length lines \<and> (\<forall>j. start \<le> j \<and> j < r \<longrightarrow> \<not> closes_at lines start j)
          \<and> (r < length lines \<longrightarrow> closes_at lines start r)"
      proof (rule "1.IH"[OF True refl refl refl refl refl refl])
        show "\<not> (?f' \<and> ?bc' = 0)" using go by simp
        show "start \<le> i + 1" using 1(2) by simp
        show "i + 1 \<le> length lines" using True by simp
        show "\<forall>j. start \<le> j \<and> j < i + 1 \<longrightarrow> \<not> closes_at lines start j"
          using 1(4) nc by (auto simp: less_Suc_eq)
        show "?bc' = (\<Sum>k \<leftarrow> [start..<i + 1]. line_delta (lines ! k))"
          using bal 1(2) by (simp add: balance_def)
        show "?f' = (\<exists>k \<in> set [start..<i + 1]. 0 < count_char (CHR ''{'') (strip (lines ! k)))"
          using op 1(2) by (simp add: opened_def)
      qed
      then show ?thesis using step by simp
    qed
  qed
qed

text \<open>
  C10 (as amended). The index at which \<open>parse_rule_block\<close> stops is the first line, from
  the start line on, at which the sum of the per-line counts of \<open>{\<close> minus \<open>}\<close> is zero and
  some line scanned so far contains a \<open>{\<close>; it is \<open>len(lines)\<close> when there is no such line.
  Only the two per-line character counts enter (\<open>closes_at\<close> reads nothing else of a line),
  so a brace inside a quoted description or a comment counts like a structural one.
\<close>

theorem block_end_first_closing_line:
  assumes "start \<le> length lines"
  shows "start \<le> block_end lines start \<and> block_end lines start \<le> length lines
       \<and> (\<forall>j. start \<le> j \<and> j < block_end lines start \<longrightarrow> \<not> closes_at lines start j)
       \<and> (block_end lines start < length lines \<longrightarrow> closes_at lines start (block_end lines start))"
proof -
  have "let r = fst (scan_block lines start 0 False []) in
         start \<le> r \<and> r \<le> length lines \<and> (\<forall>j. start \<le> j \<and> j < r \<longrightarrow> \<not> closes_at lines start j)
          \<and> (r < length lines \<longrightarrow> closes_at lines start r)"
    by (rule scan_block_invariant) (use assms in auto)
  then show ?thesis by (simp add: block_end_def Let_def)
qed

text \<open>
  The witness is a block whose description holds a closing brace: the scan stops at the
  description line (index 1), before the structural closing brace on line 2.
\<close>

theorem block_end_first_closing_line_witness:
  "block_end [''R {'', ''@ '' @ [CHR 0x22] @ ''a } b'' @ [CHR 0x22], ''}'', ''Y = Z''] 0 = 1"
proof -
  let ?L = "[''R {'', ''@ '' @ [CHR 0x22] @ ''a } b'' @ [CHR 0x22], ''}'', ''Y = Z'']"
  have len: "0 \<le> length ?L" by simp
  have c1: "closes_at ?L 0 1" by code_simp
  have c0: "\<not> closes_at ?L 0 0" by code_simp
  note t = block_end_first_closing_line [OF len]
  have "\<not> 1 < block_end ?L 0" using t c1 by auto
  moreover have "block_end ?L 0 \<noteq> 0"
  proof
    assume z: "block_end ?L 0 = 0"
    then have "block_end ?L 0 < length ?L" by simp
    with t have "closes_at ?L 0 (block_end ?L 0)" by blast
    with z c0 show False by simp
  qed
  ultimately show ?thesis by linarith
qed

text \<open>
  C10 as stated fails on a line whose closing brace comes first: the count is zero at the
  end of the line without ever having been positive, and the scan stops there.
\<close>

theorem block_end_spec_counterexample:
  "block_end [''R }{''] 0 \<noteq> block_end_spec [''R }{''] 0"
  by code_simp

section \<open>Rewriting layer expressions\<close>

lemma starts_with_iff: "starts_with p s \<longleftrightarrow> (\<exists>t. s = p @ t)"
  by (induction p s rule: starts_with.induct) auto

lemma space_split_unique:
  "CHR '' '' \<notin> set x \<Longrightarrow> CHR '' '' \<notin> set y \<Longrightarrow> x @ CHR '' '' # p = y @ CHR '' '' # q \<Longrightarrow> x = y \<and> p = q"
proof (induction x arbitrary: y)
  case Nil then show ?case by (cases y) auto
next
  case (Cons a x) then show ?case by (cases y) auto
qed

lemma replace_skip:
  "CHR '' '' \<notin> set a \<Longrightarrow> replace_str (CHR '' '' # p) new (a @ s) = a @ replace_str (CHR '' '' # p) new s"
proof (induction a)
  case Nil then show ?case by simp
next
  case (Cons c a)
  then have "\<not> starts_with (CHR '' '' # p) ((c # a) @ s)" by auto
  then have "replace_str (CHR '' '' # p) new ((c # a) @ s) = c # replace_str (CHR '' '' # p) new (a @ s)"
    using Cons.prems by (subst replace_str.simps) auto
  with Cons show ?case by simp
qed

lemma replace_nil: "replace_str (CHR '' '' # p) new [] = []"
  by (subst replace_str.simps) simp

lemma replace_hit:
  "replace_str (CHR '' '' # K @ '' '') new (CHR '' '' # K @ CHR '' '' # t) = new @ replace_str (CHR '' '' # K @ '' '') new t"
proof -
  have "starts_with (CHR '' '' # K @ '' '') (CHR '' '' # K @ CHR '' '' # t)"
    by (simp add: starts_with_iff)
  then show ?thesis by (subst replace_str.simps) simp
qed

lemma replace_miss:
  assumes "\<not> starts_with (K @ '' '') t"
  shows "replace_str (CHR '' '' # K @ '' '') new (CHR '' '' # t) = CHR '' '' # replace_str (CHR '' '' # K @ '' '') new t"
  using assms by (subst replace_str.simps) simp

lemma split_spaces_nonempty: "split_spaces s \<noteq> []"
  by (induction s) (auto split: list.splits)

lemma join_Cons: "ws \<noteq> [] \<Longrightarrow> join sep (w # ws) = w @ sep @ join sep ws"
  by (cases ws) simp_all

lemma join_split_spaces: "join '' '' (split_spaces s) = s"
proof (induction s)
  case Nil
  show ?case by simp
next
  case (Cons c cs)
  obtain w ws where sp: "split_spaces cs = w # ws"
    using split_spaces_nonempty[of cs] by (cases "split_spaces cs") auto
  show ?case
  proof (cases "c = CHR '' ''")
    case True
    then show ?thesis using Cons split_spaces_nonempty[of cs] by (simp add: join_Cons)
  next
    case False
    have "join '' '' ((c # w) # ws) = c # join '' '' (w # ws)" by (cases ws) simp_all
    then show ?thesis using False Cons sp by simp
  qed
qed

lemma split_spaces_free: "\<forall>w \<in> set (split_spaces s). CHR '' '' \<notin> set w"
proof (induction s)
  case Nil
  show ?case by simp
next
  case (Cons c cs)
  then show ?case by (auto split: list.splits)
qed

lemma replace_fields_nonempty: "ws \<noteq> [] \<Longrightarrow> replace_fields K S a ws \<noteq> []"
  by (induction K S a ws rule: replace_fields.induct) auto

lemma replace_fields_free:
  "CHR '' '' \<notin> set S \<Longrightarrow> \<forall>w \<in> set ws. CHR '' '' \<notin> set w \<Longrightarrow>
   \<forall>w \<in> set (replace_fields K S a ws). CHR '' '' \<notin> set w"
  by (induction K S a ws rule: replace_fields.induct) auto

lemma replace_free: "CHR '' '' \<notin> set w \<Longrightarrow> replace_str (CHR '' '' # p) new w = w"
  using replace_skip[of w p new "[]"] by (simp add: replace_nil)

lemma replace_str_fields:
  assumes K: "CHR '' '' \<notin> set K"
  shows "ws \<noteq> [] \<Longrightarrow> \<forall>w \<in> set ws. CHR '' '' \<notin> set w \<Longrightarrow>
     replace_str (CHR '' '' # K @ '' '') (CHR '' '' # S @ '' '') (CHR '' '' # join '' '' ws)
        = CHR '' '' # join '' '' (replace_fields K S True ws)
     \<and> replace_str (CHR '' '' # K @ '' '') (CHR '' '' # S @ '' '') (join '' '' ws)
        = join '' '' (replace_fields K S False ws)"
proof (induction ws)
  case Nil
  then show ?case by simp
next
  case (Cons w ws)
  let ?pat = "CHR '' '' # K @ '' ''" and ?new = "CHR '' '' # S @ '' ''"
  have w: "CHR '' '' \<notin> set w" using Cons.prems by simp
  show ?case
  proof (cases ws)
    case Nil
    have "\<not> starts_with (K @ '' '') w"
    proof
      assume "starts_with (K @ '' '') w"
      then obtain t where "w = K @ CHR '' '' # t" by (auto simp: starts_with_iff)
      with w show False by auto
    qed
    then have "replace_str ?pat ?new (CHR '' '' # w) = CHR '' '' # replace_str ?pat ?new w"
      by (rule replace_miss)
    then show ?thesis using Nil replace_free[OF w, of "K @ '' ''" ?new] by simp
  next
    case (Cons w' ws')
    then have ne: "ws \<noteq> []" by simp
    have fr: "\<forall>w \<in> set ws. CHR '' '' \<notin> set w" using Cons.prems by simp
    note IH = Cons.IH[OF ne fr]
    have rne: "replace_fields K S True ws \<noteq> []" "replace_fields K S False ws \<noteq> []"
      using ne by (simp_all add: replace_fields_nonempty)
    have B: "replace_str ?pat ?new (join '' '' (w # ws)) = join '' '' (replace_fields K S False (w # ws))"
    proof -
      have "replace_str ?pat ?new (join '' '' (w # ws)) = w @ replace_str ?pat ?new (CHR '' '' # join '' '' ws)"
        using replace_skip[OF w, of "K @ '' ''" ?new "CHR '' '' # join '' '' ws"] ne by (simp add: join_Cons)
      also have "\<dots> = w @ CHR '' '' # join '' '' (replace_fields K S True ws)" using IH by simp
      also have "\<dots> = join '' '' (replace_fields K S False (w # ws))"
        using Cons rne by (simp add: join_Cons)
      finally show ?thesis .
    qed
    have A: "replace_str ?pat ?new (CHR '' '' # join '' '' (w # ws))
               = CHR '' '' # join '' '' (replace_fields K S True (w # ws))"
    proof (cases "w = K")
      case True
      have "replace_str ?pat ?new (CHR '' '' # join '' '' (w # ws)) = ?new @ replace_str ?pat ?new (join '' '' ws)"
        using replace_hit[of K ?new "join '' '' ws"] True ne by (simp add: join_Cons)
      also have "\<dots> = ?new @ join '' '' (replace_fields K S False ws)" using IH by simp
      also have "\<dots> = CHR '' '' # join '' '' (replace_fields K S True (w # ws))"
        using True Cons rne by (simp add: join_Cons)
      finally show ?thesis .
    next
      case False
      have "\<not> starts_with (K @ '' '') (join '' '' (w # ws))"
      proof
        assume "starts_with (K @ '' '') (join '' '' (w # ws))"
        then obtain t where "w @ CHR '' '' # join '' '' ws = K @ CHR '' '' # t"
          using ne by (auto simp: starts_with_iff join_Cons)
        with space_split_unique[OF w K] False show False by blast
      qed
      then have "replace_str ?pat ?new (CHR '' '' # join '' '' (w # ws))
                  = CHR '' '' # replace_str ?pat ?new (join '' '' (w # ws))"
        by (rule replace_miss)
      then show ?thesis using B False Cons by simp
    qed
    from A B show ?thesis by simp
  qed
qed

text \<open>
  C9 (as amended). For every layer expression, read as the fields between its space
  characters: each pass replaces its connective exactly where the connective is a whole
  field, is neither the first nor the last field and still has its space before it, so
  \<open>AND\<close> becomes \<open>&\<close>, \<open>OR\<close> becomes \<open>|\<close> and \<open>NOT\<close> becomes \<open>!\<close> between two
  spaces; a connective at the start or the end of the string, or joined to a parenthesis
  or another character, stays, and so does the second of two equal connectives that
  share one space. Every other character, spaces and parentheses included, is returned
  unchanged.
\<close>

theorem translate_layer_expression_fields:
  "translate_layer_expression e = join '' '' (rewrite_fields (split_spaces e))"
proof -
  let ?F0 = "split_spaces e"
  let ?F1 = "replace_fields ''AND'' ''&'' False ?F0"
  let ?F2 = "replace_fields ''OR'' ''|'' False ?F1"
  let ?F3 = "replace_fields ''NOT'' ''!'' False ?F2"
  have n0: "?F0 \<noteq> []" by (rule split_spaces_nonempty)
  have f0: "\<forall>w \<in> set ?F0. CHR '' '' \<notin> set w" by (rule split_spaces_free)
  have n1: "?F1 \<noteq> []" using n0 by (rule replace_fields_nonempty)
  have f1: "\<forall>w \<in> set ?F1. CHR '' '' \<notin> set w" by (rule replace_fields_free[OF _ f0]) simp
  have n2: "?F2 \<noteq> []" using n1 by (rule replace_fields_nonempty)
  have f2: "\<forall>w \<in> set ?F2. CHR '' '' \<notin> set w" by (rule replace_fields_free[OF _ f1]) simp
  have p1: "replace_str '' AND '' '' & '' e = join '' '' ?F1"
    using replace_str_fields[of "''AND''" ?F0 "''&''"] n0 f0 join_split_spaces[of e] by simp
  have p2: "replace_str '' OR '' '' | '' (join '' '' ?F1) = join '' '' ?F2"
    using replace_str_fields[of "''OR''" ?F1 "''|''"] n1 f1 by simp
  have p3: "replace_str '' NOT '' '' ! '' (join '' '' ?F2) = join '' '' ?F3"
    using replace_str_fields[of "''NOT''" ?F2 "''!''"] n2 f2 by simp
  show ?thesis
  proof (cases "e = []")
    case True
    then show ?thesis by (simp add: translate_layer_expression_def rewrite_fields_def)
  next
    case False
    then show ?thesis using p1 p2 p3 by (simp add: translate_layer_expression_def rewrite_fields_def)
  qed
qed

text \<open>
  The example of the specification, \<open>POLY AND ACTIVE\<close>, and expressions with a unary
  \<open>NOT\<close> after a connective, with parentheses and with doubled spaces.
\<close>

theorem translate_layer_expression_fields_witness:
  "translate_layer_expression ''POLY AND ACTIVE'' = ''POLY & ACTIVE''
   \<and> translate_layer_expression ''(A OR B) AND NOT C'' = ''(A | B) & ! C''
   \<and> translate_layer_expression ''A  AND  B'' = ''A  &  B''
   \<and> translate_layer_expression ''NOT A AND AND B OR'' = ''NOT A & AND B OR''"
proof -
  have "join '' '' (rewrite_fields (split_spaces ''POLY AND ACTIVE'')) = ''POLY & ACTIVE''"
    by code_simp
  moreover have "join '' '' (rewrite_fields (split_spaces ''(A OR B) AND NOT C'')) = ''(A | B) & ! C''"
    by code_simp
  moreover have "join '' '' (rewrite_fields (split_spaces ''A  AND  B'')) = ''A  &  B''"
    by code_simp
  moreover have "join '' '' (rewrite_fields (split_spaces ''NOT A AND AND B OR'')) = ''NOT A & AND B OR''"
    by code_simp
  ultimately show ?thesis
    using translate_layer_expression_fields [of "''POLY AND ACTIVE''"]
      translate_layer_expression_fields [of "''(A OR B) AND NOT C''"]
      translate_layer_expression_fields [of "''A  AND  B''"]
      translate_layer_expression_fields [of "''NOT A AND AND B OR''"]
    by simp
qed

text \<open>
  C9 as stated fails for a connective at the start of the expression: it has no space
  before it, so \<open>replace\<close> leaves it, where whole-word substitution would rewrite it.
\<close>

theorem translate_layer_expression_counterexample:
  "translate_layer_expression ''NOT POLY'' = ''NOT POLY''
   \<and> rewrite_words ''NOT POLY'' = ''! POLY''"
  by code_simp

section \<open>The token list of the lexer\<close>


















section \<open>Lexing the token texts again\<close>



























section \<open>The token parser: rule blocks and layer statements\<close>

lemma skip_to_rbrace_stuck:
  assumes c: "current_token p = Some t" and t: "tok_type t \<noteq> RBRACE" and a: "parser_advance p = p"
  shows "skip_to_rbrace p = None"
proof (rule ccontr)
  assume "skip_to_rbrace p \<noteq> None"
  then obtain y where y: "skip_to_rbrace p = Some y" by auto
  have "p \<noteq> p"
  proof (rule skip_to_rbrace.raw_induct[where P = "\<lambda>x y. x \<noteq> p", OF _ y])
    fix f :: "'a parser \<Rightarrow> 'a parser option" and x y
    assume ih: "\<And>x y. f x = Some y \<Longrightarrow> x \<noteq> p"
      and b: "(case current_token x of None \<Rightarrow> Some x
                | Some t \<Rightarrow> if tok_type t \<noteq> RBRACE then f (parser_advance x) else Some x) = Some y"
    show "x \<noteq> p"
    proof
      assume "x = p"
      with b c t a have "f p = Some y" by simp
      with ih show False by blast
    qed
  qed
  then show False by simp
qed

lemma skip_to_rbrace_last:
  "p_pos p + 1 = length (p_tokens p) \<Longrightarrow> tok_type (p_tokens p ! p_pos p) \<noteq> RBRACE \<Longrightarrow>
   skip_to_rbrace p = None"
  by (rule skip_to_rbrace_stuck[of p "p_tokens p ! p_pos p"])
     (simp_all add: current_token_def parser_advance_def)

lemma tokenize_unclosed_rule:
  "tokenize ''R {'' = [Token IDENTIFIER ''R'' 1 1, Token LBRACE ''{'' 1 3, Token EOF [] 1 4]"
  by code_simp

lemma tokenize_layer_without_number:
  "tokenize (''LAYER M1'' @ [CHR 0x0A] @ ''X = A'') =
     [Token LAYER ''LAYER'' 1 1, Token IDENTIFIER ''M1'' 1 7, Token NEWLINE [CHR 0x0A] 1 9,
      Token IDENTIFIER ''X'' 2 1, Token ASSIGN ''='' 2 3, Token IDENTIFIER ''A'' 2 5,
      Token EOF [] 2 6]"
  by code_simp

text \<open>
  C3. The claim is that the parser terminates on every token list, a rule block whose
  closing brace is missing included. On the text \<open>R {\<close>, whose tokens are an identifier, an
  opening brace and the end-of-input token, \<open>parse\<close> does not return: the loop that skips to the
  closing brace calls \<open>advance\<close> at the end-of-input token, where \<open>advance\<close> does nothing. This
  holds whatever \<open>float\<close> and \<open>int\<close> do.
\<close>

theorem parse_unclosed_rule_diverges:
  "tokenize ''R {'' = [Token IDENTIFIER ''R'' 1 1, Token LBRACE ''{'' 1 3, Token EOF [] 1 4]
   \<and> parse flt trunc (tokenize ''R {'') = None"
proof
  show "tokenize ''R {'' = [Token IDENTIFIER ''R'' 1 1, Token LBRACE ''{'' 1 3, Token EOF [] 1 4]"
    by (rule tokenize_unclosed_rule)
  show "parse flt trunc (tokenize ''R {'') = None"
    unfolding tokenize_unclosed_rule parse_def parser_init_def
    by (subst parse_loop.simps)
       (simp add: current_token_def Token_def skip_newlines.simps skip_comments.simps peek_def
          parse_drc_rule_def parser_advance_def bind_loop_def bind_res_def rule_body_def ret_def
          skip_to_rbrace_last)
qed

text \<open>
  C6. The claim is that a \<open>LAYER\<close> statement followed by neither a number nor \<open>=\<close> gives no
  layer record and at least one diagnostic, and that parsing goes on. On the two lines
  \<open>LAYER M1\<close> and \<open>X = A\<close> the parser returns, the first line gives no layer and the second
  line is parsed, but the list of errors is empty: no diagnostic is recorded.
\<close>

theorem parse_layer_without_number_no_diagnostic:
  "parse flt trunc (tokenize (''LAYER M1'' @ [CHR 0x0A] @ ''X = A'')) =
     Some (Inr \<lparr>res_layers = [\<lparr>ld_name = ''X'', ld_gds_layer = None, ld_expression = Some ''A'',
                                 ld_line = 2\<rparr>],
                 res_rules = [], res_includes = [], res_errors = [], res_warnings = []\<rparr>)"
  unfolding tokenize_layer_without_number parse_def parser_init_def
  by (simp add: parse_loop.simps current_token_def Token_def skip_newlines.simps
      skip_comments.simps peek_def parse_layer_definition_def parse_derived_layer_def
      parse_layer_expression_def expression_loop.simps parser_advance_def bind_loop_def
      bind_res_def ret_def)

end
